theory Spec2Isabelle
  imports Main
begin

section \<open>Values of the host language\<close>

text \<open>
  A string is the sequence of its UTF-16 code units, each a natural number; \<open>js\<close> writes
  an ASCII literal. \<open>String(n)\<close> of a number is its decimal notation.
\<close>

type_synonym jsstring = "nat list"

definition js :: "string \<Rightarrow> jsstring" where
  "js s = map of_char s"

fun digits :: "nat \<Rightarrow> jsstring" where
  "digits n = (if n < 10 then [48 + n] else digits (n div 10) @ [48 + n mod 10])"

declare digits.simps [simp del]

definition string_of_int :: "int \<Rightarrow> jsstring" where
  "string_of_int i = (if i < 0 then 45 # digits (nat (- i)) else digits (nat i))"

text \<open>\<open>parts.join('')\<close>: the parts one after the other, in order.\<close>

definition array_join :: "jsstring list \<Rightarrow> jsstring" where
  "array_join parts = concat parts"

text \<open>
  \<open>xs.slice(start, end)\<close>: a negative index counts from the end, every index is clamped
  to the array, and a missing \<open>end\<close> is the length.
\<close>

definition relative_index :: "int \<Rightarrow> nat \<Rightarrow> nat" where
  "relative_index k len = (if k < 0 then nat (max (int len + k) 0) else min (nat k) len)"

definition array_slice :: "'a list \<Rightarrow> int \<Rightarrow> int option \<Rightarrow> 'a list" where
  "array_slice xs start end =
     (let len = length xs;
          k = relative_index start len;
          final = (case end of None \<Rightarrow> len | Some e \<Rightarrow> relative_index e len)
      in take (final - k) (drop k xs))"

text \<open>
  A \<open>Map\<close> keeps its entries in insertion order: \<open>set\<close> on a present key replaces the
  value in place, on a new key it appends the entry.
\<close>

type_synonym ('k, 'v) jsmap = "('k \<times> 'v) list"

definition map_get :: "('k, 'v) jsmap \<Rightarrow> 'k \<Rightarrow> 'v option" where
  "map_get m k = map_of m k"

fun map_set :: "('k, 'v) jsmap \<Rightarrow> 'k \<Rightarrow> 'v \<Rightarrow> ('k, 'v) jsmap" where
  "map_set [] k v = [(k, v)]"
| "map_set ((k', v') # m) k v =
     (if k' = k then (k, v) # m else (k', v') # map_set m k v)"

definition map_delete :: "('k, 'v) jsmap \<Rightarrow> 'k \<Rightarrow> ('k, 'v) jsmap" where
  "map_delete m k = filter (\<lambda>e. fst e \<noteq> k) m"

text \<open>
  What the handlers use of the runtime outside this repository: the case folding of the
  regular-expression engine under the \<open>i\<close> flag, and the two path functions.
\<close>

record platform =
  canonicalize :: "nat \<Rightarrow> nat"
  path_normalize :: "jsstring \<Rightarrow> jsstring"
  path_join :: "jsstring \<Rightarrow> jsstring \<Rightarrow> jsstring"

section \<open>Regular expressions of the pattern compiler\<close>

abbreviation (input) LF :: nat where "LF \<equiv> 10"
abbreviation (input) CR :: nat where "CR \<equiv> 13"
abbreviation (input) DOLLAR :: nat where "DOLLAR \<equiv> 36"
abbreviation (input) LPAREN :: nat where "LPAREN \<equiv> 40"
abbreviation (input) RPAREN :: nat where "RPAREN \<equiv> 41"
abbreviation (input) STAR :: nat where "STAR \<equiv> 42"
abbreviation (input) PLUS :: nat where "PLUS \<equiv> 43"
abbreviation (input) DOT :: nat where "DOT \<equiv> 46"
abbreviation (input) QMARK :: nat where "QMARK \<equiv> 63"
abbreviation (input) LBRACKET :: nat where "LBRACKET \<equiv> 91"
abbreviation (input) BACKSLASH :: nat where "BACKSLASH \<equiv> 92"
abbreviation (input) RBRACKET :: nat where "RBRACKET \<equiv> 93"
abbreviation (input) CARET :: nat where "CARET \<equiv> 94"
abbreviation (input) LBRACE :: nat where "LBRACE \<equiv> 123"
abbreviation (input) BAR :: nat where "BAR \<equiv> 124"
abbreviation (input) RBRACE :: nat where "RBRACE \<equiv> 125"
abbreviation (input) LINE_SEPARATOR :: nat where "LINE_SEPARATOR \<equiv> 8232"
abbreviation (input) PARAGRAPH_SEPARATOR :: nat where "PARAGRAPH_SEPARATOR \<equiv> 8233"

text \<open>
  The fragment of the pattern language that the compiler can produce: the two anchors,
  and an atom (the dot or one character) taken once or under a greedy star.
\<close>

datatype atom = Any | Lit nat

datatype rterm = Bol | Eol | One atom | Star atom

record RegExp =
  terms :: "rterm list"
  ignoreCase :: bool

datatype regex_error =
    Nothing_to_repeat
  | Trailing_backslash
  | Outside_fragment nat

definition syntax_characters :: "nat list" where
  "syntax_characters =
     [CARET, DOLLAR, BACKSLASH, DOT, STAR, PLUS, QMARK,
      LPAREN, RPAREN, LBRACKET, RBRACKET, LBRACE, RBRACE, BAR]"

definition prepend :: "rterm \<Rightarrow> regex_error + rterm list \<Rightarrow> regex_error + rterm list" where
  "prepend t r = (case r of Inl e \<Rightarrow> Inl e | Inr ts \<Rightarrow> Inr (t # ts))"

text \<open>
  Reading a pattern text, as \<open>new RegExp(text)\<close> does. A dangling quantifier and a
  backslash at the end are the engine's syntax errors; syntax beyond the fragment (groups,
  classes, alternatives, other quantifiers, other escapes) is reported as such rather
  than given a meaning.
\<close>

fun parse_pattern :: "jsstring \<Rightarrow> regex_error + rterm list"
  and quantifier :: "atom \<Rightarrow> jsstring \<Rightarrow> regex_error + rterm list" where
  "parse_pattern [] = Inr []"
| "parse_pattern (c # cs) =
     (if c = CARET then prepend Bol (parse_pattern cs)
      else if c = DOLLAR then prepend Eol (parse_pattern cs)
      else if c = DOT then quantifier Any cs
      else if c = BACKSLASH then
        (case cs of
           [] \<Rightarrow> Inl Trailing_backslash
         | d # ds \<Rightarrow>
             if d \<in> set syntax_characters then quantifier (Lit d) ds
             else Inl (Outside_fragment d))
      else if c = STAR \<or> c = PLUS \<or> c = QMARK then Inl Nothing_to_repeat
      else if c \<in> set syntax_characters then Inl (Outside_fragment c)
      else quantifier (Lit c) cs)"
| "quantifier a [] = Inr [One a]"
| "quantifier a (q # cs) =
     (if q = STAR then
        (case cs of
           [] \<Rightarrow> Inr [Star a]
         | l # ls \<Rightarrow>
             if l = QMARK then Inl (Outside_fragment l)
             else prepend (Star a) (parse_pattern cs))
      else if q = PLUS \<or> q = QMARK \<or> q = LBRACE then Inl (Outside_fragment q)
      else prepend (One a) (parse_pattern (q # cs)))"

definition RegExp_new :: "jsstring \<Rightarrow> bool \<Rightarrow> regex_error + RegExp" where
  "RegExp_new source ic =
     (case parse_pattern source of
        Inl e \<Rightarrow> Inl e
      | Inr ts \<Rightarrow> Inr \<lparr>terms = ts, ignoreCase = ic\<rparr>)"

text \<open>
  Matching. The dot takes every code unit but the four line terminators; a character
  takes itself, up to the engine's case folding when the \<open>i\<close> flag is set.
\<close>

definition line_terminator :: "nat \<Rightarrow> bool" where
  "line_terminator c \<longleftrightarrow>
     c = LF \<or> c = CR \<or> c = LINE_SEPARATOR \<or> c = PARAGRAPH_SEPARATOR"

definition same_character :: "platform \<Rightarrow> bool \<Rightarrow> nat \<Rightarrow> nat \<Rightarrow> bool" where
  "same_character P ic a b \<longleftrightarrow>
     (if ic then canonicalize P a = canonicalize P b else a = b)"

fun atom_accepts :: "platform \<Rightarrow> bool \<Rightarrow> atom \<Rightarrow> nat \<Rightarrow> bool" where
  "atom_accepts P ic Any c \<longleftrightarrow> \<not> line_terminator c"
| "atom_accepts P ic (Lit d) c \<longleftrightarrow> same_character P ic d c"

text \<open>
  \<open>run\<close> matches the terms from one position of the input (the number of code units
  before it, and those from it on), trying the longer repetition of a star first.
\<close>

fun run :: "platform \<Rightarrow> bool \<Rightarrow> rterm list \<Rightarrow> nat \<Rightarrow> jsstring \<Rightarrow> bool" where
  "run P ic [] i cs \<longleftrightarrow> True"
| "run P ic (Bol # ts) i cs \<longleftrightarrow> i = 0 \<and> run P ic ts i cs"
| "run P ic (Eol # ts) i cs \<longleftrightarrow> cs = [] \<and> run P ic ts i cs"
| "run P ic (One a # ts) i [] \<longleftrightarrow> False"
| "run P ic (One a # ts) i (c # cs) \<longleftrightarrow> atom_accepts P ic a c \<and> run P ic ts (Suc i) cs"
| "run P ic (Star a # ts) i [] \<longleftrightarrow> run P ic ts i []"
| "run P ic (Star a # ts) i (c # cs) \<longleftrightarrow>
     (atom_accepts P ic a c \<and> run P ic (Star a # ts) (Suc i) cs) \<or> run P ic ts i (c # cs)"

text \<open>\<open>regex.test(input)\<close>: a match starting at some position of the input.\<close>

fun search_from :: "platform \<Rightarrow> bool \<Rightarrow> rterm list \<Rightarrow> nat \<Rightarrow> jsstring \<Rightarrow> bool" where
  "search_from P ic ts i [] \<longleftrightarrow> run P ic ts i []"
| "search_from P ic ts i (c # cs) \<longleftrightarrow>
     run P ic ts i (c # cs) \<or> search_from P ic ts (Suc i) cs"

definition regex_test :: "platform \<Rightarrow> RegExp \<Rightarrow> jsstring \<Rightarrow> bool" where
  "regex_test P re input = search_from P (ignoreCase re) (terms re) 0 input"

subsection \<open>The wildcard compiler of the search tools\<close>

text \<open>
  The three \<open>replace\<close> calls, in the source's order: a backslash before each of the
  twelve characters of the class, then \<open>.*\<close> for each star, then a dot for each question
  mark. The result goes between \<open>^\<close> and \<open>$\<close> and is compiled with the \<open>i\<close> flag.
\<close>

definition escaped_class :: "nat list" where
  "escaped_class =
     [DOT, PLUS, CARET, DOLLAR, LBRACE, RBRACE, LPAREN, RPAREN, BAR,
      LBRACKET, RBRACKET, BACKSLASH]"

definition escape_specials :: "jsstring \<Rightarrow> jsstring" where
  "escape_specials p =
     concat (map (\<lambda>c. if c \<in> set escaped_class then [BACKSLASH, c] else [c]) p)"

definition replace_stars :: "jsstring \<Rightarrow> jsstring" where
  "replace_stars p = concat (map (\<lambda>c. if c = STAR then [DOT, STAR] else [c]) p)"

definition replace_question_marks :: "jsstring \<Rightarrow> jsstring" where
  "replace_question_marks p = concat (map (\<lambda>c. if c = QMARK then [DOT] else [c]) p)"

definition regexPattern :: "jsstring \<Rightarrow> jsstring" where
  "regexPattern p = replace_question_marks (replace_stars (escape_specials p))"

definition compile_wildcard :: "jsstring \<Rightarrow> regex_error + RegExp" where
  "compile_wildcard p = RegExp_new ([CARET] @ regexPattern p @ [DOLLAR]) True"

text \<open>
  For the proofs: what the three replacements together make of one character of the
  wildcard pattern, and the term that this piece of pattern text is read as.
\<close>

definition piece :: "nat \<Rightarrow> jsstring" where
  "piece c =
     (if c \<in> set escaped_class then [BACKSLASH, c]
      else if c = STAR then [DOT, STAR]
      else if c = QMARK then [DOT]
      else [c])"

definition term_of :: "nat \<Rightarrow> rterm" where
  "term_of c = (if c = STAR then Star Any else if c = QMARK then One Any else One (Lit c))"

section \<open>Background searches\<close>

text \<open>
  What is at a path: a directory with its entries in listing order, a directory whose
  listing fails, or anything that is not a directory. \<open>readdir\<close> succeeds on the first
  only. The tree is taken as it stands while a search runs.
\<close>

datatype fsnode = FileNode | Unreadable | DirNode "(jsstring \<times> fsnode) list"

fun isDirectory :: "fsnode \<Rightarrow> bool" where
  "isDirectory FileNode \<longleftrightarrow> False"
| "isDirectory Unreadable \<longleftrightarrow> True"
| "isDirectory (DirNode entries) \<longleftrightarrow> True"

text \<open>
  A file system tells what is at a path, if anything: \<open>fs.access\<close> succeeds where there
  is something. Reading a path where there is nothing fails like any failed listing.
\<close>

definition pathExists :: "(jsstring \<Rightarrow> fsnode option) \<Rightarrow> jsstring \<Rightarrow> bool" where
  "pathExists fs targetPath \<longleftrightarrow> (case fs targetPath of None \<Rightarrow> False | Some node \<Rightarrow> True)"

definition node_at :: "(jsstring \<Rightarrow> fsnode option) \<Rightarrow> jsstring \<Rightarrow> fsnode" where
  "node_at fs targetPath = (case fs targetPath of None \<Rightarrow> Unreadable | Some node \<Rightarrow> node)"

text \<open>The field \<open>aborted\<close> is the signal of the session's abort controller.\<close>

record SearchSession =
  search_id :: jsstring
  directory :: jsstring
  pattern :: RegExp
  patternString :: jsstring
  results :: "jsstring list"
  isRunning :: bool
  startTime :: nat
  scannedDirs :: nat
  aborted :: bool

definition skipped_directories :: "jsstring list" where
  "skipped_directories =
     [js ''node_modules'', js ''.git'', js ''$RECYCLE.BIN'',
      js ''System Volume Information'', js ''Windows'', js ''Program Files'',
      js ''Program Files (x86)'']"

definition cancelled :: "SearchSession \<Rightarrow> bool" where
  "cancelled session \<longleftrightarrow> \<not> isRunning session \<or> aborted session"

text \<open>What a stop request does to a running session.\<close>

definition stop_session :: "SearchSession \<Rightarrow> SearchSession" where
  "stop_session session = session\<lparr>isRunning := False, aborted := True\<rparr>"

text \<open>
  The traversal yields to other requests only while a directory read is pending. The
  reads of one traversal are numbered from 0, and \<open>stops k\<close> says that a stop request
  for the session is served while read \<open>k\<close> is pending.
\<close>

definition await_readdir ::
  "(nat \<Rightarrow> bool) \<Rightarrow> SearchSession \<times> nat \<Rightarrow> SearchSession \<times> nat" where
  "await_readdir stops st =
     (case st of (session, k) \<Rightarrow>
        (if stops k \<and> isRunning session then stop_session session else session, Suc k))"

text \<open>
  \<open>asyncSearchFiles\<close> with its loop over the entries. The read of the directory is
  the only call inside the \<open>try\<close> that can fail; when it does, the \<open>catch\<close> ends the
  call with the session as it is, before the counter is incremented.
\<close>

fun asyncSearchFiles ::
    "platform \<Rightarrow> (nat \<Rightarrow> bool) \<Rightarrow> fsnode \<Rightarrow> jsstring \<Rightarrow> SearchSession \<times> nat
      \<Rightarrow> SearchSession \<times> nat"
  and search_entries ::
    "platform \<Rightarrow> (nat \<Rightarrow> bool) \<Rightarrow> (jsstring \<times> fsnode) list \<Rightarrow> jsstring \<Rightarrow> SearchSession \<times> nat
      \<Rightarrow> SearchSession \<times> nat" where
  "asyncSearchFiles P stops node dirPath st =
     (if cancelled (fst st) then st
      else
        (case await_readdir stops st of (session, k) \<Rightarrow>
           (case node of
              DirNode entries \<Rightarrow>
                search_entries P stops entries dirPath
                  (session\<lparr>scannedDirs := scannedDirs session + 1\<rparr>, k)
            | Unreadable \<Rightarrow> (session, k)
            | FileNode \<Rightarrow> (session, k))))"
| "search_entries P stops [] dirPath st = st"
| "search_entries P stops ((name, child) # entries) dirPath st =
     (if cancelled (fst st) then st
      else
        (let fullPath = path_join P dirPath name in
         if isDirectory child then
           (if name \<in> set skipped_directories then search_entries P stops entries dirPath st
            else search_entries P stops entries dirPath
                   (asyncSearchFiles P stops child fullPath st))
         else if regex_test P (pattern (fst st)) name then
           search_entries P stops entries dirPath
             ((fst st)\<lparr>results := results (fst st) @ [fullPath]\<rparr>, snd st)
         else search_entries P stops entries dirPath st))"

declare asyncSearchFiles.simps [simp del]

text \<open>
  The background task that \<open>fc_start_search\<close> leaves behind. The call of
  \<open>asyncSearchFiles\<close> made there passed the first check on the session just created and
  issued the read of the start directory; the task goes on from the return of that
  read, and ends with the completion callback.
\<close>

definition search_task ::
  "platform \<Rightarrow> (nat \<Rightarrow> bool) \<Rightarrow> fsnode \<Rightarrow> jsstring \<Rightarrow> SearchSession \<Rightarrow> SearchSession" where
  "search_task P stops node dirPath session0 =
     (case await_readdir stops (session0, 0) of (session, k) \<Rightarrow>
        (fst (case node of
                DirNode entries \<Rightarrow>
                  search_entries P stops entries dirPath
                    (session\<lparr>scannedDirs := scannedDirs session + 1\<rparr>, k)
              | Unreadable \<Rightarrow> (session, k)
              | FileNode \<Rightarrow> (session, k)))\<lparr>isRunning := False\<rparr>)"

section \<open>Interactive process sessions\<close>

text \<open>The child process is represented by its pid, absent when the spawn failed.\<close>

record ProcessSession =
  session_id :: jsstring
  process_pid :: "nat option"
  command :: jsstring
  args :: "jsstring list"
  cwd :: jsstring
  procStartTime :: nat
  session_output :: "jsstring list"
  procRunning :: bool

datatype process_event =
    Stdout_data jsstring
  | Stderr_data jsstring
  | Close_event "int option"
  | Error_event jsstring

definition exit_code_text :: "int option \<Rightarrow> jsstring" where
  "exit_code_text code = (case code of None \<Rightarrow> js ''null'' | Some c \<Rightarrow> string_of_int c)"

text \<open>The four listeners that \<open>fc_start_session\<close> registers on the child process.\<close>

fun on_event :: "process_event \<Rightarrow> ProcessSession \<Rightarrow> ProcessSession" where
  "on_event (Stdout_data d) session =
     (let pushed = session\<lparr>session_output := session_output session @ [d]\<rparr>
      in if length (session_output pushed) > 1000
         then pushed\<lparr>session_output := array_slice (session_output pushed) (- 500) None\<rparr>
         else pushed)"
| "on_event (Stderr_data d) session =
     session\<lparr>session_output := session_output session @ [js ''[stderr] '' @ d]\<rparr>"
| "on_event (Close_event code) session =
     (session\<lparr>procRunning := False\<rparr>)
       \<lparr>session_output := session_output session @ [[LF] @ js ''[Prozess beendet mit Code '' @ exit_code_text code @ js '']'']\<rparr>"
| "on_event (Error_event message) session =
     (session\<lparr>procRunning := False\<rparr>)
       \<lparr>session_output := session_output session @ [[LF] @ js ''[Fehler: '' @ message @ js '']'']\<rparr>"

section \<open>The server: two registries and their request handlers\<close>

text \<open>
  Besides the two maps and their counters the state records what the handlers leave to
  the outside: the traversals started and not awaited, and the signals sent to child
  processes.
\<close>

record server =
  searchSessions :: "(jsstring, SearchSession) jsmap"
  searchCounter :: nat
  pending_searches :: "(jsstring \<times> jsstring) list"
  processSessions :: "(jsstring, ProcessSession) jsmap"
  sessionCounter :: nat
  sent_signals :: "(jsstring \<times> jsstring) list"

text \<open>
  A handler answers with a failure (\<open>isError: true\<close>) or a reply. Both carry the values
  that the handler puts into its message text.
\<close>

datatype failure =
    Directory_not_found jsstring
  | Search_start_failed regex_error
  | Search_not_found jsstring
  | Search_still_running
  | Session_start_failed jsstring
  | Session_not_found jsstring
  | Session_close_failed jsstring

record search_page =
  page_running :: bool
  page_pattern :: jsstring
  page_directory :: jsstring
  page_scanned :: nat
  totalResults :: nat
  page_runtime :: int
  paginatedResults :: "jsstring list"
  hasMore :: bool

datatype reply =
    Search_started jsstring jsstring jsstring
  | Search_results search_page
  | Search_already_finished nat
  | Search_stopped jsstring nat
  | Search_list "(bool \<times> jsstring \<times> jsstring \<times> nat \<times> int) list"
  | Searches_cleared nat
  | Search_removed jsstring
  | Session_started jsstring "nat option" jsstring
  | Session_output bool jsstring
  | Session_list "(bool \<times> jsstring \<times> jsstring \<times> nat option \<times> int) list"
  | Session_closed jsstring

text \<open>\<open>Math.round((now - start) / 1000)\<close>, on whole milliseconds.\<close>

definition runtime_seconds :: "nat \<Rightarrow> nat \<Rightarrow> int" where
  "runtime_seconds now start = (int now - int start + 500) div 1000"

subsection \<open>Search handlers\<close>

definition generateSearchId :: "nat \<Rightarrow> server \<Rightarrow> jsstring \<times> server" where
  "generateSearchId now srv =
     (let n = searchCounter srv + 1
      in (js ''search_'' @ digits n @ js ''_'' @ digits now, srv\<lparr>searchCounter := n\<rparr>))"

text \<open>
  \<open>fc_start_search\<close>. \<open>fs\<close> is the file system when the request is served, and \<open>now\<close>
  is the clock then. The call of \<open>asyncSearchFiles\<close> is not awaited: the handler
  returns with the read of the start directory pending, which the state records.
\<close>

definition fc_start_search ::
  "platform \<Rightarrow> (jsstring \<Rightarrow> fsnode option) \<Rightarrow> nat \<Rightarrow> jsstring \<Rightarrow> jsstring \<Rightarrow> server
    \<Rightarrow> (failure + reply) \<times> server" where
  "fc_start_search P fs now dir pat srv =
     (let dirPath = path_normalize P dir in
      if \<not> pathExists fs dirPath then (Inl (Directory_not_found dirPath), srv)
      else
          (case compile_wildcard pat of
             Inl e \<Rightarrow> (Inl (Search_start_failed e), srv)
           | Inr regex \<Rightarrow>
               (case generateSearchId now srv of (searchId, srv1) \<Rightarrow>
                  (let session =
                         \<lparr>search_id = searchId, directory = dirPath, pattern = regex,
                          patternString = pat, results = [], isRunning = True,
                          startTime = now, scannedDirs = 0, aborted = False\<rparr>
                   in (Inr (Search_started searchId dirPath pat),
                       srv1\<lparr>searchSessions := map_set (searchSessions srv1) searchId session,
                            pending_searches :=
                              pending_searches srv1 @ [(searchId, dirPath)]\<rparr>)))))"

text \<open>
  The oldest pending traversal runs to its end. It works on the session object, which it
  still holds when the entry has left the map; then nothing of it shows in the state.
\<close>

definition run_pending_search ::
  "platform \<Rightarrow> (jsstring \<Rightarrow> fsnode option) \<Rightarrow> (nat \<Rightarrow> bool) \<Rightarrow> server \<Rightarrow> server" where
  "run_pending_search P fs stops srv =
     (case pending_searches srv of
        [] \<Rightarrow> srv
      | (searchId, dirPath) # rest \<Rightarrow>
          (case map_get (searchSessions srv) searchId of
             None \<Rightarrow> srv\<lparr>pending_searches := rest\<rparr>
           | Some session \<Rightarrow>
               srv\<lparr>searchSessions :=
                      map_set (searchSessions srv) searchId
                        (search_task P stops (node_at fs dirPath) dirPath session),
                    pending_searches := rest\<rparr>))"

definition fc_get_search_results ::
  "nat \<Rightarrow> jsstring \<Rightarrow> int \<Rightarrow> int \<Rightarrow> server \<Rightarrow> (failure + reply) \<times> server" where
  "fc_get_search_results now sid offset limit srv =
     (case map_get (searchSessions srv) sid of
        None \<Rightarrow> (Inl (Search_not_found sid), srv)
      | Some session \<Rightarrow>
          (Inr (Search_results
                 \<lparr>page_running = isRunning session,
                  page_pattern = patternString session,
                  page_directory = directory session,
                  page_scanned = scannedDirs session,
                  totalResults = length (results session),
                  page_runtime = runtime_seconds now (startTime session),
                  paginatedResults =
                    array_slice (results session) offset (Some (offset + limit)),
                  hasMore = (int (length (results session)) > offset + limit)\<rparr>),
           srv))"

definition fc_stop_search :: "jsstring \<Rightarrow> server \<Rightarrow> (failure + reply) \<times> server" where
  "fc_stop_search sid srv =
     (case map_get (searchSessions srv) sid of
        None \<Rightarrow> (Inl (Search_not_found sid), srv)
      | Some session \<Rightarrow>
          if \<not> isRunning session
          then (Inr (Search_already_finished (length (results session))), srv)
          else (Inr (Search_stopped sid (length (results session))),
                srv\<lparr>searchSessions :=
                       map_set (searchSessions srv) sid (stop_session session)\<rparr>))"

definition fc_list_searches :: "nat \<Rightarrow> server \<Rightarrow> (failure + reply) \<times> server" where
  "fc_list_searches now srv =
     (Inr (Search_list
            (map (\<lambda>(sid, session).
                    (isRunning session, sid, patternString session,
                     length (results session), runtime_seconds now (startTime session)))
               (searchSessions srv))),
      srv)"

text \<open>
  The loop of \<open>fc_clear_search("all")\<close> over the entries of the map, deleting as it goes
  and counting.
\<close>

fun clear_finished ::
  "(jsstring \<times> SearchSession) list \<Rightarrow> (jsstring, SearchSession) jsmap \<times> nat
    \<Rightarrow> (jsstring, SearchSession) jsmap \<times> nat" where
  "clear_finished [] acc = acc"
| "clear_finished ((sid, session) # entries) (m, count) =
     (if \<not> isRunning session then clear_finished entries (map_delete m sid, count + 1)
      else clear_finished entries (m, count))"

definition fc_clear_search :: "jsstring \<Rightarrow> server \<Rightarrow> (failure + reply) \<times> server" where
  "fc_clear_search sid srv =
     (if sid = js ''all'' then
        (case clear_finished (searchSessions srv) (searchSessions srv, 0) of
           (m, count) \<Rightarrow> (Inr (Searches_cleared count), srv\<lparr>searchSessions := m\<rparr>))
      else
        (case map_get (searchSessions srv) sid of
           None \<Rightarrow> (Inl (Search_not_found sid), srv)
         | Some session \<Rightarrow>
             if isRunning session then (Inl Search_still_running, srv)
             else (Inr (Search_removed sid),
                   srv\<lparr>searchSessions := map_delete (searchSessions srv) sid\<rparr>)))"

subsection \<open>Process handlers\<close>

definition generateSessionId :: "nat \<Rightarrow> server \<Rightarrow> jsstring \<times> server" where
  "generateSessionId now srv =
     (let n = sessionCounter srv + 1
      in (js ''session_'' @ digits n @ js ''_'' @ digits now, srv\<lparr>sessionCounter := n\<rparr>))"

text \<open>
  \<open>fc_start_session\<close>. \<open>spawned\<close> is what \<open>spawn\<close> does for the request: it throws with
  a message, or returns a child process with or without a pid. \<open>process_cwd\<close> is the
  server's own working directory, used when the request names none.
\<close>

definition fc_start_session ::
  "platform \<Rightarrow> jsstring \<Rightarrow> jsstring + nat option \<Rightarrow> nat \<Rightarrow> jsstring \<Rightarrow> jsstring list
    \<Rightarrow> jsstring option \<Rightarrow> server \<Rightarrow> (failure + reply) \<times> server" where
  "fc_start_session P process_cwd spawned now cmd arguments cwd_param srv =
     (case generateSessionId now srv of (sessionId, srv1) \<Rightarrow>
        (let dir = (case cwd_param of
                      None \<Rightarrow> process_cwd
                    | Some c \<Rightarrow> if c = [] then process_cwd else path_normalize P c)
         in case spawned of
              Inl message \<Rightarrow> (Inl (Session_start_failed message), srv1)
            | Inr pid \<Rightarrow>
                (let session =
                       \<lparr>session_id = sessionId, process_pid = pid, command = cmd,
                        args = arguments, cwd = dir, procStartTime = now,
                        session_output = [], procRunning = True\<rparr>
                 in (Inr (Session_started sessionId pid dir),
                     srv1\<lparr>processSessions :=
                            map_set (processSessions srv1) sessionId session\<rparr>))))"

text \<open>
  An event of a child process reaches the listeners of its session. They hold the session
  object itself; once the entry has left the map nothing of the event shows in the state.
\<close>

definition process_event_arrives :: "jsstring \<Rightarrow> process_event \<Rightarrow> server \<Rightarrow> server" where
  "process_event_arrives sid e srv =
     (case map_get (processSessions srv) sid of
        None \<Rightarrow> srv
      | Some session \<Rightarrow>
          srv\<lparr>processSessions := map_set (processSessions srv) sid (on_event e session)\<rparr>)"

text \<open>
  \<open>fc_read_output\<close>: the reply carries the running flag and what the message text
  shows between its fences, \<open>output || '(kein Output)'\<close>: the joined transcript, or the
  placeholder when the join is the empty string.
\<close>

definition displayed_output :: "jsstring \<Rightarrow> jsstring" where
  "displayed_output out = (if out = [] then js ''(kein Output)'' else out)"

definition fc_read_output :: "jsstring \<Rightarrow> bool \<Rightarrow> server \<Rightarrow> (failure + reply) \<times> server" where
  "fc_read_output sid clear srv =
     (case map_get (processSessions srv) sid of
        None \<Rightarrow> (Inl (Session_not_found sid), srv)
      | Some session \<Rightarrow>
          (let out = array_join (session_output session)
           in (Inr (Session_output (procRunning session) (displayed_output out)),
               if clear
               then srv\<lparr>processSessions :=
                          map_set (processSessions srv) sid (session\<lparr>session_output := []\<rparr>)\<rparr>
               else srv)))"

definition fc_list_sessions :: "nat \<Rightarrow> server \<Rightarrow> (failure + reply) \<times> server" where
  "fc_list_sessions now srv =
     (Inr (Session_list
            (map (\<lambda>(sid, session).
                    (procRunning session, sid, command session, process_pid session,
                     runtime_seconds now (procStartTime session)))
               (processSessions srv))),
      srv)"

text \<open>
  \<open>process.kill(name)\<close> throws for a name that is not a signal; whether the signal
  reached a live process shows in the value it returns, which the handler does not read.
  The names listed are those every platform of the runtime knows.
\<close>

definition signal_names :: "jsstring list" where
  "signal_names =
     [js ''SIGHUP'', js ''SIGINT'', js ''SIGILL'', js ''SIGABRT'', js ''SIGFPE'',
      js ''SIGKILL'', js ''SIGSEGV'', js ''SIGTERM'']"

definition process_kill :: "jsstring \<Rightarrow> jsstring \<Rightarrow> server \<Rightarrow> jsstring + server" where
  "process_kill sid name srv =
     (if name \<in> set signal_names
      then Inr (srv\<lparr>sent_signals := sent_signals srv @ [(sid, name)]\<rparr>)
      else Inl (js ''Unknown signal: '' @ name))"

definition fc_close_session :: "jsstring \<Rightarrow> bool \<Rightarrow> server \<Rightarrow> (failure + reply) \<times> server" where
  "fc_close_session sid force srv =
     (case map_get (processSessions srv) sid of
        None \<Rightarrow> (Inl (Session_not_found sid), srv)
      | Some session \<Rightarrow>
          (case (if procRunning session
                 then (if force then process_kill sid (js ''SIGKILL'') srv
                       else process_kill sid (js ''SIGTERM'') srv)
                 else Inr srv) of
             Inl message \<Rightarrow> (Inl (Session_close_failed message), srv)
           | Inr srv1 \<Rightarrow>
               (Inr (Session_closed sid),
                srv1\<lparr>processSessions := map_delete (processSessions srv1) sid\<rparr>)))"

section \<open>What the specification says, for comparison\<close>

text \<open>
  A wildcard pattern read as the specification words it: a star stands for any number of
  characters, a question mark for one, and any other character for itself up to \<open>same\<close>.
  \<open>arbitrary\<close> says which characters a star or a question mark may stand for.
\<close>

primrec wildcard_match ::
  "(nat \<Rightarrow> bool) \<Rightarrow> (nat \<Rightarrow> nat \<Rightarrow> bool) \<Rightarrow> jsstring \<Rightarrow> jsstring \<Rightarrow> bool" where
  "wildcard_match arbitrary same [] name \<longleftrightarrow> name = []"
| "wildcard_match arbitrary same (c # p) name \<longleftrightarrow>
     (if c = STAR then
        (\<exists>k \<in> {0..length name}.
           (\<forall>d \<in> set (take k name). arbitrary d) \<and> wildcard_match arbitrary same p (drop k name))
      else
        (case name of
           [] \<Rightarrow> False
         | d # ds \<Rightarrow>
             (if c = QMARK then arbitrary d else same c d) \<and> wildcard_match arbitrary same p ds))"

definition case_insensitive :: "platform \<Rightarrow> nat \<Rightarrow> nat \<Rightarrow> bool" where
  "case_insensitive P a b \<longleftrightarrow> canonicalize P a = canonicalize P b"

definition wildcard_as_specified :: "platform \<Rightarrow> jsstring \<Rightarrow> jsstring \<Rightarrow> bool" where
  "wildcard_as_specified P p name = wildcard_match (\<lambda>d. True) (case_insensitive P) p name"

definition wildcard_within_line :: "platform \<Rightarrow> jsstring \<Rightarrow> jsstring \<Rightarrow> bool" where
  "wildcard_within_line P p name =
     wildcard_match (\<lambda>d. \<not> line_terminator d) (case_insensitive P) p name"

text \<open>
  What a traversal that is never cancelled should find: the matching entries in
  pre-order, nothing from a skipped directory or from one whose listing fails; and the
  number of directories it lists.
\<close>

fun found_in :: "platform \<Rightarrow> RegExp \<Rightarrow> fsnode \<Rightarrow> jsstring \<Rightarrow> jsstring list"
  and found_among :: "platform \<Rightarrow> RegExp \<Rightarrow> (jsstring \<times> fsnode) list \<Rightarrow> jsstring \<Rightarrow> jsstring list" where
  "found_in P re (DirNode entries) dirPath = found_among P re entries dirPath"
| "found_in P re Unreadable dirPath = []"
| "found_in P re FileNode dirPath = []"
| "found_among P re [] dirPath = []"
| "found_among P re ((name, child) # entries) dirPath =
     (if isDirectory child then
        (if name \<in> set skipped_directories then []
         else found_in P re child (path_join P dirPath name))
      else if regex_test P re name then [path_join P dirPath name]
      else [])
     @ found_among P re entries dirPath"

fun listed_in :: "fsnode \<Rightarrow> nat"
  and listed_among :: "(jsstring \<times> fsnode) list \<Rightarrow> nat" where
  "listed_in (DirNode entries) = 1 + listed_among entries"
| "listed_in Unreadable = 0"
| "listed_in FileNode = 0"
| "listed_among [] = 0"
| "listed_among ((name, child) # entries) =
     (if isDirectory child \<and> name \<notin> set skipped_directories then listed_in child else 0)
     + listed_among entries"

section \<open>Concrete values for the examples\<close>

definition upper_ascii :: "nat \<Rightarrow> nat" where
  "upper_ascii c = (if 97 \<le> c \<and> c \<le> 122 then c - 32 else c)"

definition posix :: platform where
  "posix = \<lparr>canonicalize = upper_ascii, path_normalize = (\<lambda>p. p),
            path_join = (\<lambda>d n. d @ js ''/'' @ n)\<rparr>"

definition no_sessions :: server where
  "no_sessions =
     \<lparr>searchSessions = [], searchCounter = 0, pending_searches = [],
      processSessions = [], sessionCounter = 0, sent_signals = []\<rparr>"

definition never :: "nat \<Rightarrow> bool" where
  "never k \<longleftrightarrow> False"

text \<open>A project directory with a skipped directory and one that cannot be listed.\<close>

definition project_tree :: fsnode where
  "project_tree =
     DirNode
       [(js ''a.ts'', FileNode),
        (js ''node_modules'', DirNode [(js ''dep.ts'', FileNode)]),
        (js ''locked'', Unreadable),
        (js ''src'', DirNode [(js ''B.TS'', FileNode), (js ''c.js'', FileNode)]),
        (js ''z.ts'', FileNode)]"

definition project_fs :: "jsstring \<Rightarrow> fsnode option" where
  "project_fs p =
     (if p = js ''/proj'' then Some project_tree
      else if p = js ''/proj/a.ts'' then Some FileNode
      else None)"

definition ts_files :: RegExp where
  "ts_files = \<lparr>terms = [Bol, Star Any, One (Lit DOT), One (Lit 116), One (Lit 115), Eol],
               ignoreCase = True\<rparr>"

definition finished_search :: SearchSession where
  "finished_search =
     \<lparr>search_id = js ''search_1_1000'', directory = js ''/proj'', pattern = ts_files,
      patternString = js ''*.ts'',
      results = [js ''/proj/a.ts'', js ''/proj/src/B.TS'', js ''/proj/z.ts''],
      isRunning = False, startTime = 1000, scannedDirs = 2, aborted = False\<rparr>"

definition running_search :: SearchSession where
  "running_search =
     \<lparr>search_id = js ''search_2_2000'', directory = js ''/proj'', pattern = ts_files,
      patternString = js ''*.ts'', results = [js ''/proj/a.ts''],
      isRunning = True, startTime = 2000, scannedDirs = 1, aborted = False\<rparr>"

definition two_searches :: server where
  "two_searches =
     no_sessions\<lparr>searchSessions :=
                   [(js ''search_1_1000'', finished_search),
                    (js ''search_2_2000'', running_search)],
                 searchCounter := 2\<rparr>"

definition python_session :: ProcessSession where
  "python_session =
     \<lparr>session_id = js ''session_1_1000'', process_pid = Some 4242, command = js ''python'',
      args = [], cwd = js ''/proj'', procStartTime = 1000,
      session_output = [js ''>>> '', js ''[stderr] warning'', js ''2''],
      procRunning = True\<rparr>"

definition one_process :: server where
  "one_process =
     no_sessions\<lparr>processSessions := [(js ''session_1_1000'', python_session)],
                 sessionCounter := 1\<rparr>"

text \<open>The session that \<open>fc_start_search\<close> creates first, for \<open>*.ts\<close> under \<open>/proj\<close>.\<close>

definition fresh_search :: SearchSession where
  "fresh_search =
     \<lparr>search_id = js ''search_1_1000'', directory = js ''/proj'', pattern = ts_files,
      patternString = js ''*.ts'', results = [], isRunning = True, startTime = 1000,
      scannedDirs = 0, aborted = False\<rparr>"

text \<open>The ids in the table of \<open>fc_list_sessions\<close>.\<close>

definition listed_session_ids :: "failure + reply \<Rightarrow> jsstring list" where
  "listed_session_ids r =
     (case r of Inr (Session_list rows) \<Rightarrow> map (\<lambda>row. fst (snd row)) rows | _ \<Rightarrow> [])"

section \<open>Properties\<close>

subsection \<open>Maps\<close>

lemma map_get_map_set_same: "map_get (map_set m k v) k = Some v"
  by (induction m) (auto simp: map_get_def)

lemma map_get_map_set_other: "k' \<noteq> k \<Longrightarrow> map_get (map_set m k v) k' = map_get m k'"
  by (induction m) (auto simp: map_get_def)

lemma map_get_map_delete_same: "map_get (map_delete m k) k = None"
  by (induction m) (auto simp: map_get_def map_delete_def)

lemma map_get_map_delete_other: "k' \<noteq> k \<Longrightarrow> map_get (map_delete m k) k' = map_get m k'"
  by (induction m) (auto simp: map_get_def map_delete_def)

lemma map_set_present: "map_get m k = Some v \<Longrightarrow> map_set m k v = m"
  by (induction m) (auto simp: map_get_def split: if_splits)

lemma keys_map_set: "set (map fst (map_set m k v)) = insert k (set (map fst m))"
proof (induction m)
  case Nil
  then show ?case by simp
next
  case (Cons e m)
  obtain k' v' where e: "e = (k', v')" by (cases e)
  show ?case
  proof (cases "k' = k")
    case True
    then show ?thesis by (simp add: e)
  next
    case False
    then show ?thesis using Cons.IH by (simp add: e insert_commute)
  qed
qed

lemma distinct_keys_map_set:
  "distinct (map fst m) \<Longrightarrow> distinct (map fst (map_set m k v))"
proof (induction m)
  case Nil
  then show ?case by simp
next
  case (Cons e m)
  obtain k' v' where e: "e = (k', v')" by (cases e)
  show ?case
  proof (cases "k' = k")
    case True
    then show ?thesis using Cons.prems by (simp add: e)
  next
    case False
    have "k' \<notin> set (map fst (map_set m k v))"
      using Cons.prems False unfolding keys_map_set by (simp add: e)
    then show ?thesis using Cons False by (simp add: e)
  qed
qed

lemma distinct_keys_map_delete:
  "distinct (map fst m) \<Longrightarrow> distinct (map fst (map_delete m k))"
  by (simp add: map_delete_def distinct_map_filter)

subsection \<open>Retention of the transcript\<close>

text \<open>A chunk from stdout leaves at most 1000 chunks, the latest 500 when it cuts.\<close>

lemma stdout_append_bounded:
  "length (session_output (on_event (Stdout_data d) session)) \<le> 1000"
  by (auto simp add: Let_def array_slice_def relative_index_def)

lemma stdout_append_keeps_latest:
  "length (session_output session) \<ge> 1000 \<Longrightarrow>
   session_output (on_event (Stdout_data d) session)
     = drop (length (session_output session) - 499) (session_output session) @ [d]"
  by (simp add: Let_def array_slice_def relative_index_def nat_diff_distrib')

lemma stdout_append_below_bound:
  "length (session_output session) < 1000 \<Longrightarrow>
   session_output (on_event (Stdout_data d) session) = session_output session @ [d]"
  by (simp add: Let_def)

text \<open>A chunk from stderr is appended and nothing is cut.\<close>

lemma stderr_append_grows:
  "session_output (on_event (Stderr_data d) session)
     = session_output session @ [js ''[stderr] '' @ d]"
  by simp

lemma event_arrives:
  "map_get (processSessions srv) sid = Some session \<Longrightarrow>
   map_get (processSessions (process_event_arrives sid e srv)) sid = Some (on_event e session)"
  by (simp add: process_event_arrives_def map_get_map_set_same)

lemma stderr_events_arrive:
  "map_get (processSessions srv) sid = Some session \<Longrightarrow>
   \<exists>session'.
      map_get (processSessions ((process_event_arrives sid (Stderr_data d) ^^ n) srv)) sid
        = Some session'
      \<and> length (session_output session') = length (session_output session) + n"
proof (induction n)
  case 0
  then show ?case by simp
next
  case (Suc n)
  then obtain s' where s':
    "map_get (processSessions ((process_event_arrives sid (Stderr_data d) ^^ n) srv)) sid
       = Some s'"
    "length (session_output s') = length (session_output session) + n"
    by blast
  from event_arrives [OF s'(1), of "Stderr_data d"] s'(2) show ?case
    by simp
qed

text \<open>
  C1. The claim: after every append, from stdout or from stderr, at most 1000 chunks
  remain. Only the stdout listener cuts the transcript (\<open>stdout_append_bounded\<close>). The
  stderr listener appends and does not: a session started with an empty transcript that
  receives 1001 chunks on stderr holds 1001 chunks.
\<close>

theorem stderr_chunks_exceed_retention_bound:
  "(let srv = snd (fc_start_session posix (js ''/'') (Inr (Some 4242)) 1000
                    (js ''python'') [] None no_sessions);
        sid = js ''session_1_1000'';
        srv' = (process_event_arrives sid (Stderr_data (js ''x'')) ^^ 1001) srv
    in case map_get (processSessions srv') sid of
         None \<Rightarrow> False
       | Some session \<Rightarrow> length (session_output session) = 1001)"
proof -
  define srv where
    "srv = snd (fc_start_session posix (js ''/'') (Inr (Some 4242)) 1000
                 (js ''python'') [] None no_sessions)"
  define sid where "sid = js ''session_1_1000''"
  have "\<exists>session. map_get (processSessions srv) sid = Some session
          \<and> session_output session = []"
    by (simp add: srv_def sid_def fc_start_session_def generateSessionId_def
          no_sessions_def Let_def digits.simps js_def map_get_def)
  then obtain session where
    "map_get (processSessions srv) sid = Some session" "session_output session = []"
    by blast
  from stderr_events_arrive [OF this(1), where d = "js ''x''" and n = 1001] this(2)
  show ?thesis
    unfolding srv_def [symmetric] sid_def [symmetric] Let_def by auto
qed

subsection \<open>Reading and closing a process session\<close>

text \<open>
  C9. The claim: \<open>fc_read_output\<close> returns the chunks of the transcript joined in their
  order. When that join is the empty string the handler returns the placeholder text
  instead: a read that clears the transcript of the example session shows its three
  chunks, and the next read of the same session, whose transcript is then empty, shows
  \<open>(kein Output)\<close>, which is not the join of no chunks.
\<close>

theorem read_output_of_empty_transcript:
  "map_get (processSessions (snd (fc_read_output (js ''session_1_1000'') True one_process)))
      (js ''session_1_1000'')
     = Some (python_session\<lparr>session_output := []\<rparr>)
   \<and> fst (fc_read_output (js ''session_1_1000'') False
             (snd (fc_read_output (js ''session_1_1000'') True one_process)))
       = Inr (Session_output True (js ''(kein Output)''))
   \<and> js ''(kein Output)'' \<noteq> concat (session_output (python_session\<lparr>session_output := []\<rparr>))"
  by (simp add: fc_read_output_def one_process_def no_sessions_def map_get_def
        python_session_def displayed_output_def array_join_def js_def)

text \<open>
  C9, amended. \<open>fc_read_output\<close> on a registered session, running or not, returns the
  chunks of the transcript joined in their order, or the placeholder \<open>(kein Output)\<close>
  when that join is the empty string. With \<open>clear\<close> the transcript of that session is
  empty afterwards and no other session changes; every chunk that was in the transcript
  is in the text returned. Without \<open>clear\<close> the state is unchanged. For an unknown id
  the call fails with not-found and changes nothing.
\<close>

theorem read_output_returns_transcript_or_placeholder:
  "(map_get (processSessions srv) sid = None \<longrightarrow>
      fc_read_output sid clear srv = (Inl (Session_not_found sid), srv))
   \<and> (\<forall>session. map_get (processSessions srv) sid = Some session \<longrightarrow>
        fst (fc_read_output sid clear srv)
          = Inr (Session_output (procRunning session)
                  (if concat (session_output session) = [] then js ''(kein Output)''
                   else concat (session_output session)))
        \<and> (clear \<longrightarrow>
             map_get (processSessions (snd (fc_read_output sid clear srv))) sid
               = Some (session\<lparr>session_output := []\<rparr>)
             \<and> (\<forall>other. other \<noteq> sid \<longrightarrow>
                  map_get (processSessions (snd (fc_read_output sid clear srv))) other
                    = map_get (processSessions srv) other))
        \<and> (\<not> clear \<longrightarrow> snd (fc_read_output sid clear srv) = srv))"
  by (simp add: fc_read_output_def array_join_def displayed_output_def Let_def
        map_get_map_set_same map_get_map_set_other)

theorem read_output_returns_transcript_or_placeholder_witness:
  "map_get (processSessions one_process) (js ''session_9_9'') = None
   \<and> fc_read_output (js ''session_9_9'') True one_process
       = (Inl (Session_not_found (js ''session_9_9'')), one_process)
   \<and> map_get (processSessions one_process) (js ''session_1_1000'') = Some python_session
   \<and> fst (fc_read_output (js ''session_1_1000'') True one_process)
       = Inr (Session_output True (js ''>>> [stderr] warning2''))
   \<and> map_get (processSessions (snd (fc_read_output (js ''session_1_1000'') True one_process)))
         (js ''session_1_1000'')
       = Some (python_session\<lparr>session_output := []\<rparr>)
   \<and> snd (fc_read_output (js ''session_1_1000'') False one_process) = one_process"
proof -
  have unknown: "map_get (processSessions one_process) (js ''session_9_9'') = None"
    by (simp add: one_process_def no_sessions_def map_get_def js_def)
  have known: "map_get (processSessions one_process) (js ''session_1_1000'') = Some python_session"
    by (simp add: one_process_def no_sessions_def map_get_def)
  have joined: "concat (session_output python_session) = js ''>>> [stderr] warning2''"
    by (simp add: python_session_def js_def)
  have shown: "js ''>>> [stderr] warning2'' \<noteq> []"
    by (simp add: js_def)
  have running: "procRunning python_session"
    by (simp add: python_session_def)
  from read_output_returns_transcript_or_placeholder
         [of one_process "js ''session_9_9''" True]
    read_output_returns_transcript_or_placeholder
         [of one_process "js ''session_1_1000''" True]
    read_output_returns_transcript_or_placeholder
         [of one_process "js ''session_1_1000''" False]
    unknown known joined shown running
  show ?thesis by simp
qed

lemma displayed_output_nonempty: "out \<noteq> [] \<Longrightarrow> displayed_output out = out"
  by (simp add: displayed_output_def)

lemma listed_ids: "listed_session_ids (fst (fc_list_sessions now srv)) = map fst (processSessions srv)"
  by (simp add: listed_session_ids_def fc_list_sessions_def split_def comp_def)

lemma keys_map_delete: "k \<notin> set (map fst (map_delete m k))"
  by (auto simp: map_delete_def)

text \<open>
  C8. \<open>fc_close_session\<close> on a registered session always succeeds and removes the
  entry: the id is no longer in the map nor in the table of \<open>fc_list_sessions\<close>, whatever
  the running flag says and with no exit event needed. If the session was still running,
  exactly one signal has been sent to it, SIGKILL under \<open>force\<close> and SIGTERM otherwise;
  if it was not, none. The other sessions stay as they are.
\<close>

theorem close_session_removes_entry:
  "map_get (processSessions srv) sid = Some session \<Longrightarrow>
   fst (fc_close_session sid force srv) = Inr (Session_closed sid)
   \<and> map_get (processSessions (snd (fc_close_session sid force srv))) sid = None
   \<and> sid \<notin> set (listed_session_ids (fst (fc_list_sessions now (snd (fc_close_session sid force srv)))))
   \<and> sent_signals (snd (fc_close_session sid force srv))
       = sent_signals srv @
           (if procRunning session
            then [(sid, if force then js ''SIGKILL'' else js ''SIGTERM'')] else [])
   \<and> (\<forall>other. other \<noteq> sid \<longrightarrow>
         map_get (processSessions (snd (fc_close_session sid force srv))) other
           = map_get (processSessions srv) other)"
  by (simp add: fc_close_session_def process_kill_def signal_names_def listed_ids
        map_get_map_delete_same map_get_map_delete_other keys_map_delete js_def del: set_map list.map)

theorem close_session_removes_entry_witness:
  "map_get (processSessions one_process) (js ''session_1_1000'') = Some python_session
   \<and> fst (fc_close_session (js ''session_1_1000'') False one_process)
       = Inr (Session_closed (js ''session_1_1000''))
   \<and> map_get (processSessions (snd (fc_close_session (js ''session_1_1000'') False one_process)))
         (js ''session_1_1000'') = None
   \<and> js ''session_1_1000''
       \<notin> set (listed_session_ids
                (fst (fc_list_sessions 5000
                        (snd (fc_close_session (js ''session_1_1000'') False one_process)))))
   \<and> sent_signals (snd (fc_close_session (js ''session_1_1000'') False one_process))
       = [(js ''session_1_1000'', js ''SIGTERM'')]"
proof -
  have known: "map_get (processSessions one_process) (js ''session_1_1000'') = Some python_session"
    by (simp add: one_process_def no_sessions_def map_get_def)
  have running: "procRunning python_session"
    by (simp add: python_session_def)
  have none: "sent_signals one_process = []"
    by (simp add: one_process_def no_sessions_def)
  from close_session_removes_entry [OF known, of False 5000] known running none
  show ?thesis by simp
qed

subsection \<open>Pages of search results\<close>

lemma array_slice_window:
  "0 \<le> offset \<Longrightarrow> 1 \<le> limit \<Longrightarrow>
   array_slice xs offset (Some (offset + limit)) = take (nat limit) (drop (nat offset) xs)"
  by (auto simp: array_slice_def relative_index_def Let_def min_def nat_add_distrib)

text \<open>
  C2. For a registered search session with results of length L, \<open>fc_get_search_results\<close>
  with \<open>0 \<le> offset\<close> and \<open>1 \<le> limit\<close> returns the results from index \<open>offset\<close> up to,
  not including, \<open>offset + limit\<close>, together with the total L, and \<open>hasMore\<close> holds iff
  \<open>L > offset + limit\<close>; for \<open>offset \<ge> L\<close> the page is empty and \<open>hasMore\<close> is false.
\<close>

theorem get_results_returns_slice:
  "map_get (searchSessions srv) sid = Some session \<Longrightarrow> 0 \<le> offset \<Longrightarrow> 1 \<le> limit \<Longrightarrow>
   (\<exists>page. fst (fc_get_search_results now sid offset limit srv) = Inr (Search_results page)
      \<and> paginatedResults page = take (nat limit) (drop (nat offset) (results session))
      \<and> totalResults page = length (results session)
      \<and> (hasMore page \<longleftrightarrow> int (length (results session)) > offset + limit)
      \<and> (int (length (results session)) \<le> offset \<longrightarrow> paginatedResults page = [] \<and> \<not> hasMore page))"
  by (simp add: fc_get_search_results_def array_slice_window)

theorem get_results_returns_slice_witness:
  "map_get (searchSessions two_searches) (js ''search_1_1000'') = Some finished_search
   \<and> (0::int) \<le> 1 \<and> (1::int) \<le> 1
   \<and> (\<exists>page. fst (fc_get_search_results 5000 (js ''search_1_1000'') 1 1 two_searches)
                = Inr (Search_results page)
        \<and> paginatedResults page = [js ''/proj/src/B.TS'']
        \<and> totalResults page = 3
        \<and> hasMore page)"
proof -
  have h: "map_get (searchSessions two_searches) (js ''search_1_1000'') = Some finished_search"
    by (simp add: two_searches_def no_sessions_def map_get_def)
  from get_results_returns_slice [OF h, of 1 1 5000]
  obtain page where
    "fst (fc_get_search_results 5000 (js ''search_1_1000'') 1 1 two_searches)
       = Inr (Search_results page)"
    "paginatedResults page = take (nat 1) (drop (nat 1) (results finished_search))"
    "totalResults page = length (results finished_search)"
    "hasMore page \<longleftrightarrow> int (length (results finished_search)) > 1 + 1"
    by auto
  then show ?thesis using h
    by (intro conjI exI [of _ page]) (simp_all add: finished_search_def)
qed

text \<open>
  C10. \<open>fc_get_search_results\<close> only observes: for every id, offset and limit the state
  after the call is the state before it, so the results, the running flag, the counter
  of scanned directories and the abort signal of every session, and the set of
  registered sessions, are unchanged.
\<close>

theorem get_results_changes_nothing:
  "snd (fc_get_search_results now sid offset limit srv) = srv"
  by (simp add: fc_get_search_results_def split: option.splits)

subsection \<open>Stopping and clearing searches\<close>

text \<open>
  C6. For a registered search session, after a first \<open>fc_stop_search\<close> the session is
  not running (and, if it was running, its abort signal is set and the call reports the
  stop); a second call on the same id is not an error, reports the search as already
  finished with the number of results, and leaves the whole state as the first call
  left it.
\<close>

theorem stop_search_twice:
  "map_get (searchSessions srv) sid = Some session \<Longrightarrow>
   (case fc_stop_search sid srv of (r1, srv1) \<Rightarrow>
      (case fc_stop_search sid srv1 of (r2, srv2) \<Rightarrow>
         (\<exists>session1. map_get (searchSessions srv1) sid = Some session1
            \<and> \<not> isRunning session1
            \<and> results session1 = results session
            \<and> (isRunning session \<longrightarrow>
                  aborted session1 \<and> r1 = Inr (Search_stopped sid (length (results session))))
            \<and> r2 = Inr (Search_already_finished (length (results session1)))
            \<and> srv2 = srv1)))"
  by (simp add: fc_stop_search_def stop_session_def map_get_map_set_same)

theorem stop_search_twice_witness:
  "map_get (searchSessions two_searches) (js ''search_2_2000'') = Some running_search
   \<and> fst (fc_stop_search (js ''search_2_2000'') two_searches)
       = Inr (Search_stopped (js ''search_2_2000'') 1)
   \<and> fc_stop_search (js ''search_2_2000'') (snd (fc_stop_search (js ''search_2_2000'') two_searches))
       = (Inr (Search_already_finished 1), snd (fc_stop_search (js ''search_2_2000'') two_searches))"
proof -
  have known: "map_get (searchSessions two_searches) (js ''search_2_2000'') = Some running_search"
    by (simp add: two_searches_def no_sessions_def map_get_def js_def)
  have facts: "isRunning running_search" "length (results running_search) = 1"
    by (simp_all add: running_search_def)
  from stop_search_twice [OF known] known facts
  show ?thesis by (auto simp: split_def prod_eq_iff)
qed

lemma clear_finished_filter:
  "clear_finished entries (m, count)
     = (filter (\<lambda>e. fst e \<notin> fst ` {x \<in> set entries. \<not> isRunning (snd x)}) m,
        count + length (filter (\<lambda>e. \<not> isRunning (snd e)) entries))"
proof (induction entries arbitrary: m count)
  case Nil
  then show ?case by simp
next
  case (Cons e entries)
  obtain sid session where e: "e = (sid, session)" by (cases e)
  show ?case
  proof (cases "isRunning session")
    case True
    have "{x. (x = (sid, session) \<or> x \<in> set entries) \<and> \<not> isRunning (snd x)} = {x \<in> set entries. \<not> isRunning (snd x)}"
      using True by auto
    then show ?thesis using True by (simp add: e Cons.IH)
  next
    case False
    have "{x. (x = (sid, session) \<or> x \<in> set entries) \<and> \<not> isRunning (snd x)} = insert (sid, session) {x \<in> set entries. \<not> isRunning (snd x)}"
      using False by auto
    then show ?thesis using False
      by (auto simp add: e Cons.IH map_delete_def intro!: filter_cong)
  qed
qed

lemma distinct_keys_entry:
  "distinct (map fst m) \<Longrightarrow> e \<in> set m \<Longrightarrow> e' \<in> set m \<Longrightarrow> fst e = fst e' \<Longrightarrow> e = e'"
  by (metis eq_key_imp_eq_value prod.collapse)

lemma clear_finished_all:
  assumes "distinct (map fst m)"
  shows "clear_finished m (m, 0)
     = (filter (\<lambda>e. isRunning (snd e)) m, length (filter (\<lambda>e. \<not> isRunning (snd e)) m))"
proof -
  have "filter (\<lambda>e. fst e \<notin> fst ` {x \<in> set m. \<not> isRunning (snd x)}) m = filter (\<lambda>e. isRunning (snd e)) m"
  proof (rule filter_cong [OF refl])
    fix e assume "e \<in> set m"
    show "(fst e \<notin> fst ` {x \<in> set m. \<not> isRunning (snd x)}) = isRunning (snd e)"
    proof
      assume "fst e \<notin> fst ` {x \<in> set m. \<not> isRunning (snd x)}"
      with \<open>e \<in> set m\<close> show "isRunning (snd e)" by force
    next
      assume run: "isRunning (snd e)"
      show "fst e \<notin> fst ` {x \<in> set m. \<not> isRunning (snd x)}"
      proof
        assume "fst e \<in> fst ` {x \<in> set m. \<not> isRunning (snd x)}"
        then obtain x where x: "x \<in> set m" "\<not> isRunning (snd x)" "fst e = fst x" by auto
        from distinct_keys_entry [OF assms \<open>e \<in> set m\<close> x(1) x(3)] run x(2)
        show False by simp
      qed
    qed
  qed
  then show ?thesis by (simp add: clear_finished_filter)
qed

text \<open>
  C7. With the keys of the map distinct, \<open>fc_clear_search("all")\<close> removes exactly the
  sessions that are not running, keeps the running ones in their order, and reports the
  number removed; calling it again succeeds and reports 0. With the id of a registered
  session, the call fails if the session is still running and changes nothing, and
  otherwise removes that session and no other.
\<close>

theorem clear_search_removes_finished:
  "distinct (map fst (searchSessions srv)) \<Longrightarrow>
   fc_clear_search (js ''all'') srv
     = (Inr (Searches_cleared (length (filter (\<lambda>e. \<not> isRunning (snd e)) (searchSessions srv)))),
        srv\<lparr>searchSessions := filter (\<lambda>e. isRunning (snd e)) (searchSessions srv)\<rparr>)
   \<and> fc_clear_search (js ''all'') (snd (fc_clear_search (js ''all'') srv))
     = (Inr (Searches_cleared 0), snd (fc_clear_search (js ''all'') srv))
   \<and> (\<forall>sid session. sid \<noteq> js ''all'' \<and> map_get (searchSessions srv) sid = Some session \<longrightarrow>
        (if isRunning session then fc_clear_search sid srv = (Inl Search_still_running, srv)
         else fst (fc_clear_search sid srv) = Inr (Search_removed sid)
              \<and> map_get (searchSessions (snd (fc_clear_search sid srv))) sid = None
              \<and> (\<forall>other. other \<noteq> sid \<longrightarrow>
                    map_get (searchSessions (snd (fc_clear_search sid srv))) other
                      = map_get (searchSessions srv) other)))"
proof -
  assume d: "distinct (map fst (searchSessions srv))"
  let ?kept = "filter (\<lambda>e. isRunning (snd e)) (searchSessions srv)"
  have first: "fc_clear_search (js ''all'') srv
     = (Inr (Searches_cleared (length (filter (\<lambda>e. \<not> isRunning (snd e)) (searchSessions srv)))),
        srv\<lparr>searchSessions := ?kept\<rparr>)"
    by (simp add: fc_clear_search_def clear_finished_all [OF d])
  have d': "distinct (map fst ?kept)" using d by (simp add: distinct_map_filter)
  have second: "fc_clear_search (js ''all'') (srv\<lparr>searchSessions := ?kept\<rparr>)
     = (Inr (Searches_cleared 0), srv\<lparr>searchSessions := ?kept\<rparr>)"
    using clear_finished_all [OF d'] by (simp add: fc_clear_search_def)
  have single: "\<forall>sid session. sid \<noteq> js ''all'' \<and> map_get (searchSessions srv) sid = Some session \<longrightarrow>
        (if isRunning session then fc_clear_search sid srv = (Inl Search_still_running, srv)
         else fst (fc_clear_search sid srv) = Inr (Search_removed sid)
              \<and> map_get (searchSessions (snd (fc_clear_search sid srv))) sid = None
              \<and> (\<forall>other. other \<noteq> sid \<longrightarrow>
                    map_get (searchSessions (snd (fc_clear_search sid srv))) other
                      = map_get (searchSessions srv) other))"
    by (simp add: fc_clear_search_def map_get_map_delete_same map_get_map_delete_other)
  show ?thesis using first second single by simp
qed

theorem clear_search_removes_finished_witness:
  "distinct (map fst (searchSessions two_searches))
   \<and> fc_clear_search (js ''all'') two_searches
       = (Inr (Searches_cleared 1),
          two_searches\<lparr>searchSessions := [(js ''search_2_2000'', running_search)]\<rparr>)
   \<and> js ''search_2_2000'' \<noteq> js ''all''
   \<and> map_get (searchSessions two_searches) (js ''search_2_2000'') = Some running_search
   \<and> fc_clear_search (js ''search_2_2000'') two_searches = (Inl Search_still_running, two_searches)
   \<and> map_get (searchSessions two_searches) (js ''search_1_1000'') = Some finished_search
   \<and> fst (fc_clear_search (js ''search_1_1000'') two_searches)
       = Inr (Search_removed (js ''search_1_1000''))"
proof -
  have d: "distinct (map fst (searchSessions two_searches))"
    by (simp add: two_searches_def no_sessions_def js_def)
  have k2: "map_get (searchSessions two_searches) (js ''search_2_2000'') = Some running_search"
    by (simp add: two_searches_def no_sessions_def map_get_def js_def)
  have k1: "map_get (searchSessions two_searches) (js ''search_1_1000'') = Some finished_search"
    by (simp add: two_searches_def no_sessions_def map_get_def)
  have n: "js ''search_2_2000'' \<noteq> js ''all''" "js ''search_1_1000'' \<noteq> js ''all''"
    by (simp_all add: js_def)
  have r: "isRunning running_search" "\<not> isRunning finished_search"
    by (simp_all add: running_search_def finished_search_def)
  have regs: "searchSessions two_searches
      = [(js ''search_1_1000'', finished_search), (js ''search_2_2000'', running_search)]"
    by (simp add: two_searches_def no_sessions_def)
  from clear_search_removes_finished [OF d] have
    a: "fc_clear_search (js ''all'') two_searches
     = (Inr (Searches_cleared (length (filter (\<lambda>e. \<not> isRunning (snd e)) (searchSessions two_searches)))),
        two_searches\<lparr>searchSessions := filter (\<lambda>e. isRunning (snd e)) (searchSessions two_searches)\<rparr>)"
    and s: "\<And>sid session. sid \<noteq> js ''all'' \<Longrightarrow> map_get (searchSessions two_searches) sid = Some session \<Longrightarrow>
        (if isRunning session then fc_clear_search sid two_searches = (Inl Search_still_running, two_searches)
         else fst (fc_clear_search sid two_searches) = Inr (Search_removed sid))"
    by simp_all
  from a s [OF n(1) k2] s [OF n(2) k1] d k1 k2 n r regs
  show ?thesis by simp
qed

subsection \<open>The traversal\<close>

lemma await_never: "(\<forall>k. \<not> stops k) \<Longrightarrow> await_readdir stops (s, t) = (s, Suc t)"
  by (simp add: await_readdir_def)

lemma cancelled_update [simp]:
  "cancelled (s\<lparr>results := r\<rparr>) = cancelled s"
  "cancelled (s\<lparr>scannedDirs := n\<rparr>) = cancelled s"
  by (simp_all add: cancelled_def)

text \<open>
  A traversal that starts on a live session and meets no stop request finds what the
  specification lists, and counts the directories it could list.
\<close>

lemma traversal_finds:
  "(\<forall>k. \<not> stops k) \<longrightarrow> \<not> cancelled (fst st) \<longrightarrow>
     fst (asyncSearchFiles P stops node dirPath st)
       = (fst st)\<lparr>results := results (fst st) @ found_in P (pattern (fst st)) node dirPath,
                  scannedDirs := scannedDirs (fst st) + listed_in node\<rparr>"
  and
  "(\<forall>k. \<not> stops k) \<longrightarrow> \<not> cancelled (fst st) \<longrightarrow>
     fst (search_entries P stops entries dirPath st)
       = (fst st)\<lparr>results := results (fst st) @ found_among P (pattern (fst st)) entries dirPath,
                  scannedDirs := scannedDirs (fst st) + listed_among entries\<rparr>"
proof (induction P stops node dirPath st and P stops entries dirPath st
       rule: asyncSearchFiles_search_entries.induct)
  case (1 P stops node dirPath st)
  show ?case
  proof (intro impI)
    assume never: "\<forall>k. \<not> stops k" and live: "\<not> cancelled (fst st)"
    obtain s t where st: "st = (s, t)" by (cases st)
    have aw: "await_readdir stops st = (s, Suc t)" using never st by (simp add: await_never)
    show "fst (asyncSearchFiles P stops node dirPath st)
       = (fst st)\<lparr>results := results (fst st) @ found_in P (pattern (fst st)) node dirPath,
                  scannedDirs := scannedDirs (fst st) + listed_in node\<rparr>"
    proof (cases node)
      case FileNode
      then show ?thesis using live aw st by (simp add: asyncSearchFiles.simps)
    next
      case Unreadable
      then show ?thesis using live aw st by (simp add: asyncSearchFiles.simps)
    next
      case (DirNode entries)
      from "1.IH" [OF live aw [symmetric] DirNode, THEN mp, OF never] live st
      have "fst (search_entries P stops entries dirPath (s\<lparr>scannedDirs := scannedDirs s + 1\<rparr>, Suc t))
         = s\<lparr>results := results s @ found_among P (pattern s) entries dirPath,
               scannedDirs := scannedDirs s + 1 + listed_among entries\<rparr>"
        by simp
      then show ?thesis using live aw st DirNode by (simp add: asyncSearchFiles.simps)
    qed
  qed
next
  case (2 P stops dirPath st)
  show ?case by simp
next
  case (3 P stops name child entries dirPath st)
  show ?case
  proof (intro impI)
    assume never: "\<forall>k. \<not> stops k" and live: "\<not> cancelled (fst st)"
    let ?full = "path_join P dirPath name"
    show "fst (search_entries P stops ((name, child) # entries) dirPath st)
       = (fst st)\<lparr>results := results (fst st)
                      @ found_among P (pattern (fst st)) ((name, child) # entries) dirPath,
                  scannedDirs := scannedDirs (fst st) + listed_among ((name, child) # entries)\<rparr>"
    proof (cases "isDirectory child")
      case True
      show ?thesis
      proof (cases "name \<in> set skipped_directories")
        case skip: True
        from "3.IH"(1) [OF live refl True skip, THEN mp, OF never] live
        show ?thesis using True skip by simp
      next
        case noskip: False
        let ?st1 = "asyncSearchFiles P stops child ?full st"
        from "3.IH"(2) [OF live refl True noskip, THEN mp, OF never] live
        have inner: "fst ?st1
           = (fst st)\<lparr>results := results (fst st) @ found_in P (pattern (fst st)) child ?full,
                      scannedDirs := scannedDirs (fst st) + listed_in child\<rparr>"
          by simp
        then have live1: "\<not> cancelled (fst ?st1)" using live by simp
        from "3.IH"(3) [OF live refl True noskip, THEN mp, OF never] live1
        have "fst (search_entries P stops entries dirPath ?st1)
           = (fst ?st1)\<lparr>results := results (fst ?st1)
                           @ found_among P (pattern (fst ?st1)) entries dirPath,
                        scannedDirs := scannedDirs (fst ?st1) + listed_among entries\<rparr>"
          by simp
        then show ?thesis using True noskip live inner by simp
      qed
    next
      case False
      show ?thesis
      proof (cases "regex_test P (pattern (fst st)) name")
        case hit: True
        from "3.IH"(4) [OF live refl False hit, THEN mp, OF never] live
        show ?thesis using False hit by simp
      next
        case miss: False
        from "3.IH"(5) [OF live refl False miss, THEN mp, OF never] live
        show ?thesis using False miss by simp
      qed
    qed
  qed
qed

lemma found_among_append:
  "found_among P re (xs @ ys) d = found_among P re xs d @ found_among P re ys d"
  by (induction xs) auto

lemma listed_among_append: "listed_among (xs @ ys) = listed_among xs + listed_among ys"
  by (induction xs) auto

lemma unreadable_directory_adds_nothing:
  "results (fst (asyncSearchFiles P stops Unreadable dirPath (session, k))) = results session
   \<and> scannedDirs (fst (asyncSearchFiles P stops Unreadable dirPath (session, k)))
       = scannedDirs session"
  by (simp add: asyncSearchFiles.simps await_readdir_def stop_session_def)

text \<open>On a session that is still live the task is the whole traversal.\<close>

lemma search_task_live:
  "\<not> cancelled session \<Longrightarrow>
   search_task P stops node dirPath session
     = (fst (asyncSearchFiles P stops node dirPath (session, 0)))\<lparr>isRunning := False\<rparr>"
  by (simp add: search_task_def asyncSearchFiles.simps split: prod.splits)

text \<open>
  C5. The traversal returns a session for every tree: a failed listing is a result, not
  an exception. On a live session, with no stop request on the way, it appends the
  matches of the tree in pre-order and counts the directories listed, where a directory
  whose listing fails gives no match and no count. In particular a start directory
  that cannot be listed leaves the session as it is, and a failing directory among the
  entries of a directory changes nothing for the entries before and after it: the
  outcome is that of the listing without it.
\<close>

theorem traversal_abandons_failed_subtree:
  assumes "\<not> cancelled session" and "\<forall>k. \<not> stops k"
  shows "fst (asyncSearchFiles P stops node dirPath (session, k0))
           = session\<lparr>results := results session @ found_in P (pattern session) node dirPath,
                     scannedDirs := scannedDirs session + listed_in node\<rparr>
         \<and> fst (asyncSearchFiles P stops Unreadable dirPath (session, k0)) = session
         \<and> fst (asyncSearchFiles P stops (DirNode (before @ (name, Unreadable) # after))
                  dirPath (session, k0))
             = fst (asyncSearchFiles P stops (DirNode (before @ after)) dirPath (session, k0))"
proof -
  have all: "\<And>node. fst (asyncSearchFiles P stops node dirPath (session, k0))
           = session\<lparr>results := results session @ found_in P (pattern session) node dirPath,
                     scannedDirs := scannedDirs session + listed_in node\<rparr>"
    using traversal_finds(1) [of stops "(session, k0)" P _ dirPath] assms by simp
  show ?thesis
    by (simp add: all found_among_append listed_among_append)
qed

theorem traversal_abandons_failed_subtree_witness:
  "\<not> cancelled fresh_search \<and> (\<forall>k. \<not> never k)
   \<and> fst (asyncSearchFiles posix never project_tree (js ''/proj'') (fresh_search, 0))
       = fresh_search\<lparr>results := [js ''/proj/a.ts'', js ''/proj/src/B.TS'', js ''/proj/z.ts''],
                      scannedDirs := 2\<rparr>"
proof -
  have live: "\<not> cancelled fresh_search"
    by (simp add: cancelled_def fresh_search_def)
  have quiet: "\<forall>k. \<not> never k"
    by (simp add: never_def)
  have facts: "results fresh_search = []" "scannedDirs fresh_search = 0"
    "pattern fresh_search = ts_files"
    by (simp_all add: fresh_search_def)
  have found: "found_in posix ts_files project_tree (js ''/proj'')
      = [js ''/proj/a.ts'', js ''/proj/src/B.TS'', js ''/proj/z.ts'']"
    by (simp add: project_tree_def posix_def ts_files_def js_def skipped_directories_def
          regex_test_def upper_ascii_def line_terminator_def same_character_def)
  have listed: "listed_in project_tree = 2"
    by (simp add: project_tree_def js_def skipped_directories_def)
  from traversal_abandons_failed_subtree [OF live quiet, of posix project_tree "js ''/proj''" 0]
  have "fst (asyncSearchFiles posix never project_tree (js ''/proj'') (fresh_search, 0))
      = fresh_search\<lparr>results := results fresh_search
                                  @ found_in posix (pattern fresh_search) project_tree (js ''/proj''),
                     scannedDirs := scannedDirs fresh_search + listed_in project_tree\<rparr>"
    by (rule conjunct1)
  then have "fst (asyncSearchFiles posix never project_tree (js ''/proj'') (fresh_search, 0))
      = fresh_search\<lparr>results := [js ''/proj/a.ts'', js ''/proj/src/B.TS'', js ''/proj/z.ts''],
                     scannedDirs := 2\<rparr>"
    by (simp only: facts found listed append_Nil add_0)
  with live quiet show ?thesis by (intro conjI)
qed

subsection \<open>The pattern compiler\<close>

lemma replace_stars_append: "replace_stars (xs @ ys) = replace_stars xs @ replace_stars ys"
  by (simp add: replace_stars_def)

lemma replace_question_marks_append:
  "replace_question_marks (xs @ ys) = replace_question_marks xs @ replace_question_marks ys"
  by (simp add: replace_question_marks_def)

lemma regexPattern_Nil: "regexPattern [] = []"
  by (simp add: regexPattern_def escape_specials_def replace_stars_def replace_question_marks_def)

lemma regexPattern_Cons: "regexPattern (c # p) = piece c @ regexPattern p"
proof -
  have "escape_specials (c # p)
      = (if c \<in> set escaped_class then [BACKSLASH, c] else [c]) @ escape_specials p"
    by (simp add: escape_specials_def)
  then have "regexPattern (c # p)
      = replace_question_marks
          (replace_stars (if c \<in> set escaped_class then [BACKSLASH, c] else [c]))
        @ regexPattern p"
    by (simp add: regexPattern_def replace_stars_append replace_question_marks_append)
  moreover have "replace_question_marks
          (replace_stars (if c \<in> set escaped_class then [BACKSLASH, c] else [c])) = piece c"
    by (simp add: piece_def replace_stars_def replace_question_marks_def escaped_class_def)
  ultimately show ?thesis by simp
qed

lemma regexPattern_pieces: "regexPattern p = concat (map piece p)"
  by (induction p) (simp_all add: regexPattern_Nil regexPattern_Cons)

text \<open>What follows a piece never starts with a quantifier.\<close>

lemma rest_starts:
  "\<exists>h t. regexPattern p @ [DOLLAR] = h # t \<and> h \<noteq> STAR \<and> h \<noteq> PLUS \<and> h \<noteq> QMARK \<and> h \<noteq> LBRACE"
proof (cases p)
  case Nil
  then show ?thesis by (simp add: regexPattern_Nil)
next
  case (Cons c p')
  then show ?thesis
    by (auto simp add: regexPattern_Cons piece_def escaped_class_def)
qed

lemma parse_regexPattern:
  "parse_pattern (regexPattern p @ [DOLLAR]) = Inr (map term_of p @ [Eol])"
proof (induction p)
  case Nil
  then show ?case by (simp add: regexPattern_Nil prepend_def)
next
  case (Cons c p)
  from rest_starts [of p] obtain h t where rest:
    "regexPattern p @ [DOLLAR] = h # t" "h \<noteq> STAR" "h \<noteq> PLUS" "h \<noteq> QMARK" "h \<noteq> LBRACE"
    by blast
  have tail: "parse_pattern (h # t) = Inr (map term_of p @ [Eol])"
    using Cons.IH rest(1) by simp
  have once: "\<And>a. quantifier a (h # t) = Inr (One a # map term_of p @ [Eol])"
    using rest tail by (simp add: prepend_def)
  show ?case
  proof (cases "c \<in> set escaped_class")
    case True
    then have "c \<in> set syntax_characters" "c \<noteq> STAR" "c \<noteq> QMARK"
      by (auto simp: escaped_class_def syntax_characters_def)
    moreover have "regexPattern (c # p) @ [DOLLAR] = BACKSLASH # c # h # t"
      using True rest(1) by (simp add: regexPattern_Cons piece_def)
    ultimately show ?thesis using once by (simp add: term_of_def)
  next
    case False
    show ?thesis
    proof (cases "c = STAR")
      case True
      then have "regexPattern (c # p) @ [DOLLAR] = DOT # STAR # h # t"
        using rest(1) by (simp add: regexPattern_Cons piece_def escaped_class_def)
      then show ?thesis using True rest tail by (simp add: term_of_def prepend_def)
    next
      case notstar: False
      show ?thesis
      proof (cases "c = QMARK")
        case True
        then have "regexPattern (c # p) @ [DOLLAR] = DOT # h # t"
          using rest(1) by (simp add: regexPattern_Cons piece_def escaped_class_def)
        then show ?thesis using True once by (simp add: term_of_def)
      next
        case notq: False
        have plain: "c \<notin> set syntax_characters"
          using False notstar notq by (auto simp: escaped_class_def syntax_characters_def)
        then have "c \<noteq> CARET" "c \<noteq> DOLLAR" "c \<noteq> DOT" "c \<noteq> BACKSLASH" "c \<noteq> PLUS"
          by (auto simp: syntax_characters_def)
        moreover have "regexPattern (c # p) @ [DOLLAR] = c # h # t"
          using False notstar notq rest(1) by (simp add: regexPattern_Cons piece_def)
        ultimately show ?thesis using plain notstar notq once by (simp add: term_of_def)
      qed
    qed
  qed
qed

lemma compile_wildcard_terms:
  "compile_wildcard p = Inr \<lparr>terms = Bol # map term_of p @ [Eol], ignoreCase = True\<rparr>"
  using parse_regexPattern [of p]
  by (simp add: compile_wildcard_def RegExp_new_def prepend_def)

lemma search_from_Bol_later: "0 < i \<Longrightarrow> \<not> search_from P ic (Bol # ts) i cs"
  by (induction cs arbitrary: i) auto

lemma search_from_Bol: "search_from P ic (Bol # ts) 0 cs = run P ic ts 0 cs"
  by (cases cs) (auto simp: search_from_Bol_later)

lemma run_Star_Any:
  "run P ic (Star Any # ts) i cs
     \<longleftrightarrow> (\<exists>k \<in> {0..length cs}.
            (\<forall>d \<in> set (take k cs). \<not> line_terminator d) \<and> run P ic ts (i + k) (drop k cs))"
proof (induction cs arbitrary: i)
  case Nil
  then show ?case by simp
next
  case (Cons c cs)
  have "(\<exists>k \<in> {0..length (c # cs)}.
            (\<forall>d \<in> set (take k (c # cs)). \<not> line_terminator d)
            \<and> run P ic ts (i + k) (drop k (c # cs)))
        \<longleftrightarrow> run P ic ts i (c # cs)
            \<or> (\<exists>k \<in> {0..length cs}.
                 (\<forall>d \<in> set (take (Suc k) (c # cs)). \<not> line_terminator d)
                 \<and> run P ic ts (i + Suc k) (drop (Suc k) (c # cs)))"
  proof
    assume "\<exists>k \<in> {0..length (c # cs)}.
            (\<forall>d \<in> set (take k (c # cs)). \<not> line_terminator d)
            \<and> run P ic ts (i + k) (drop k (c # cs))"
    then obtain k where k: "k \<le> length (c # cs)"
      "\<forall>d \<in> set (take k (c # cs)). \<not> line_terminator d"
      "run P ic ts (i + k) (drop k (c # cs))" by auto
    show "run P ic ts i (c # cs)
            \<or> (\<exists>k \<in> {0..length cs}.
                 (\<forall>d \<in> set (take (Suc k) (c # cs)). \<not> line_terminator d)
                 \<and> run P ic ts (i + Suc k) (drop (Suc k) (c # cs)))"
    proof (cases k)
      case 0
      with k show ?thesis by simp
    next
      case (Suc j)
      with k have "j \<in> {0..length cs}" by simp
      with k Suc show ?thesis by blast
    qed
  next
    assume "run P ic ts i (c # cs)
            \<or> (\<exists>k \<in> {0..length cs}.
                 (\<forall>d \<in> set (take (Suc k) (c # cs)). \<not> line_terminator d)
                 \<and> run P ic ts (i + Suc k) (drop (Suc k) (c # cs)))"
    then show "\<exists>k \<in> {0..length (c # cs)}.
            (\<forall>d \<in> set (take k (c # cs)). \<not> line_terminator d)
            \<and> run P ic ts (i + k) (drop k (c # cs))"
    proof
      assume "run P ic ts i (c # cs)"
      then show ?thesis by (intro bexI [of _ 0]) simp_all
    next
      assume "\<exists>k \<in> {0..length cs}.
                 (\<forall>d \<in> set (take (Suc k) (c # cs)). \<not> line_terminator d)
                 \<and> run P ic ts (i + Suc k) (drop (Suc k) (c # cs))"
      then obtain k where "k \<le> length cs"
        "\<forall>d \<in> set (take (Suc k) (c # cs)). \<not> line_terminator d"
        "run P ic ts (i + Suc k) (drop (Suc k) (c # cs))" by auto
      then show ?thesis by (intro bexI [of _ "Suc k"]) simp_all
    qed
  qed
  then show ?case using Cons.IH [of "Suc i"] by auto
qed

lemma run_terms_of:
  "run P True (map term_of p @ [Eol]) i name \<longleftrightarrow> wildcard_within_line P p name"
proof (induction p arbitrary: i name)
  case Nil
  then show ?case by (simp add: wildcard_within_line_def)
next
  case (Cons c p)
  show ?case
  proof (cases "c = STAR")
    case True
    then show ?thesis
      using Cons.IH
      by (simp add: term_of_def run_Star_Any wildcard_within_line_def)
  next
    case False
    then show ?thesis
      using Cons.IH
      by (cases name)
         (auto simp add: term_of_def wildcard_within_line_def same_character_def
            case_insensitive_def)
  qed
qed

lemma compiled_ts: "compile_wildcard (js ''*.ts'') = Inr ts_files"
  by (simp add: compile_wildcard_def regexPattern_def escape_specials_def replace_stars_def
        replace_question_marks_def escaped_class_def RegExp_new_def syntax_characters_def
        prepend_def ts_files_def js_def)

lemma ts_files_accepts: "regex_test posix ts_files (js ''B.TS'')"
  by (simp add: regex_test_def ts_files_def posix_def js_def same_character_def
        upper_ascii_def line_terminator_def)

lemma ts_files_rejects: "\<not> regex_test posix ts_files (js ''c.js'')"
  by (simp add: regex_test_def ts_files_def posix_def js_def same_character_def
        upper_ascii_def line_terminator_def)

lemma ts_files_rejects_line_feed: "\<not> regex_test posix ts_files (js ''a'' @ [LF] @ js ''b.ts'')"
  by (simp add: regex_test_def ts_files_def posix_def js_def same_character_def
        upper_ascii_def line_terminator_def)

lemma specified_accepts_line_feed: "wildcard_as_specified posix (js ''*.ts'') (js ''a'' @ [LF] @ js ''b.ts'')"
proof -
  have "wildcard_match (\<lambda>d. True) (case_insensitive posix) (js ''.ts'') (js ''.ts'')"
    by (simp add: js_def case_insensitive_def)
  then have "\<exists>k \<in> {0..length (js ''a'' @ [LF] @ js ''b.ts'')}.
      (\<forall>d \<in> set (take k (js ''a'' @ [LF] @ js ''b.ts'')). True)
      \<and> wildcard_match (\<lambda>d. True) (case_insensitive posix) (js ''.ts'')
           (drop k (js ''a'' @ [LF] @ js ''b.ts''))"
    by (intro bexI [of _ 3]) (simp_all add: js_def)
  then show ?thesis
    by (simp add: wildcard_as_specified_def js_def)
qed

text \<open>
  What the compiled predicate does accept, over the code units of the name: compiling
  never fails, and the expression takes a name iff the whole name matches the pattern
  with a star for any number of code units that are not line terminators, a question
  mark for one such code unit, and every other code unit for itself up to the case
  folding of the engine. The empty pattern takes the empty name only.
\<close>

lemma compiled_wildcard_matches_within_line:
  "(\<exists>re. compile_wildcard p = Inr re
      \<and> (\<forall>name. regex_test P re name \<longleftrightarrow> wildcard_within_line P p name))
   \<and> (\<exists>re. compile_wildcard [] = Inr re \<and> (\<forall>name. regex_test P re name \<longleftrightarrow> name = []))"
  by (simp add: compile_wildcard_terms regex_test_def search_from_Bol run_terms_of
        wildcard_within_line_def)

lemma compiled_wildcard_example:
  "compile_wildcard (js ''*.ts'') = Inr ts_files
   \<and> regex_test posix ts_files (js ''B.TS'')
   \<and> wildcard_within_line posix (js ''*.ts'') (js ''B.TS'')
   \<and> \<not> wildcard_within_line posix (js ''*.ts'') (js ''c.js'')"
proof -
  from compiled_wildcard_matches_within_line [of "js ''*.ts''" posix]
  have "\<forall>name. regex_test posix ts_files name \<longleftrightarrow> wildcard_within_line posix (js ''*.ts'') name"
    by (simp add: compiled_ts)
  with compiled_ts ts_files_accepts ts_files_rejects show ?thesis
    by simp
qed

text \<open>
  A question mark takes one code unit, so a name that starts with one character outside
  the basic plane (a surrogate pair, here U+1F600) is not taken by \<open>?.ts\<close>.
\<close>

lemma question_mark_takes_one_code_unit:
  "compile_wildcard (js ''?.ts'')
     = Inr \<lparr>terms = [Bol, One Any, One (Lit DOT), One (Lit 116), One (Lit 115), Eol],
            ignoreCase = True\<rparr>
   \<and> \<not> regex_test posix
         \<lparr>terms = [Bol, One Any, One (Lit DOT), One (Lit 116), One (Lit 115), Eol],
          ignoreCase = True\<rparr>
         ([55357, 56832] @ js ''.ts'')"
  by (simp add: compile_wildcard_terms term_of_def regex_test_def posix_def js_def
        same_character_def upper_ascii_def line_terminator_def)

text \<open>
  C4. The claim: the compiled predicate accepts a name iff the whole name matches the
  pattern with a star for any characters, a question mark for any one character and
  every other character for itself, case-insensitively. The compiler writes the dot
  for both wildcards and builds the expression with the flag \<open>i\<close> alone, so neither
  wildcard takes a line terminator: \<open>*.ts\<close> compiles, the compiled expression rejects
  the file name \<open>a\<close>, line feed, \<open>b.ts\<close>, and the pattern as the claim reads it accepts
  that name.
\<close>

theorem wildcard_star_stops_at_line_feed:
  "compile_wildcard (js ''*.ts'') = Inr ts_files
   \<and> \<not> regex_test posix ts_files (js ''a'' @ [LF] @ js ''b.ts'')
   \<and> wildcard_as_specified posix (js ''*.ts'') (js ''a'' @ [LF] @ js ''b.ts'')"
  by (simp only: compiled_ts ts_files_rejects_line_feed specified_accepts_line_feed
        not_False_eq_True simp_thms)

subsection \<open>Starting a search\<close>

text \<open>A missing start directory is refused; anything that exists starts a search.\<close>

lemma start_search_missing:
  "\<not> pathExists fs (path_normalize P dir) \<Longrightarrow>
   fc_start_search P fs now dir pat srv
     = (Inl (Directory_not_found (path_normalize P dir)), srv)"
  by (simp add: fc_start_search_def)

lemma start_search_present:
  "pathExists fs (path_normalize P dir) \<Longrightarrow>
   \<exists>sid session.
      fst (fc_start_search P fs now dir pat srv)
        = Inr (Search_started sid (path_normalize P dir) pat)
      \<and> map_get (searchSessions (snd (fc_start_search P fs now dir pat srv))) sid = Some session
      \<and> isRunning session \<and> \<not> aborted session \<and> results session = []
      \<and> scannedDirs session = 0
      \<and> pending_searches (snd (fc_start_search P fs now dir pat srv))
          = pending_searches srv @ [(sid, path_normalize P dir)]"
  by (simp add: fc_start_search_def compile_wildcard_terms generateSearchId_def Let_def
        map_get_map_set_same)

text \<open>
  C3. The claim: the start operation fails when the directory does not exist or is not
  a directory. \<open>fc_start_search\<close> only asks whether the path exists. For the path of a
  regular file it answers with a new search id, registers a running session and leaves
  a traversal behind; that traversal fails to list the file, the failure is swallowed,
  and the search ends with no result and no directory scanned.
\<close>

theorem start_search_accepts_a_file:
  "project_fs (js ''/proj/a.ts'') = Some FileNode
   \<and> (case fc_start_search posix project_fs 1000 (js ''/proj/a.ts'') (js ''*.ts'') no_sessions of
        (r, srv) \<Rightarrow>
          r = Inr (Search_started (js ''search_1_1000'') (js ''/proj/a.ts'') (js ''*.ts''))
          \<and> map_get (searchSessions srv) (js ''search_1_1000'')
              = Some (fresh_search\<lparr>directory := js ''/proj/a.ts''\<rparr>)
          \<and> pending_searches srv = [(js ''search_1_1000'', js ''/proj/a.ts'')]
          \<and> map_get (searchSessions (run_pending_search posix project_fs never srv))
                (js ''search_1_1000'')
              = Some (fresh_search\<lparr>directory := js ''/proj/a.ts'', isRunning := False\<rparr>))"
proof -
  have sid: "generateSearchId 1000 no_sessions
      = (js ''search_1_1000'', no_sessions\<lparr>searchCounter := 1\<rparr>)"
    by (simp add: generateSearchId_def no_sessions_def digits.simps js_def)
  have node: "project_fs (js ''/proj/a.ts'') = Some FileNode"
    by (simp add: project_fs_def js_def)
  have norm: "path_normalize posix (js ''/proj/a.ts'') = js ''/proj/a.ts''"
    by (simp add: posix_def)
  have started:
    "fc_start_search posix project_fs 1000 (js ''/proj/a.ts'') (js ''*.ts'') no_sessions
       = (Inr (Search_started (js ''search_1_1000'') (js ''/proj/a.ts'') (js ''*.ts'')),
          no_sessions\<lparr>searchCounter := 1,
                      searchSessions :=
                        [(js ''search_1_1000'', fresh_search\<lparr>directory := js ''/proj/a.ts''\<rparr>)],
                      pending_searches := [(js ''search_1_1000'', js ''/proj/a.ts'')]\<rparr>)"
    unfolding fc_start_search_def norm Let_def compiled_ts sid
    by (simp add: pathExists_def node no_sessions_def fresh_search_def)
  show ?thesis
    unfolding started
    by (simp add: node node_at_def run_pending_search_def map_get_def search_task_def
          await_readdir_def never_def fresh_search_def no_sessions_def)
qed

subsection \<open>The keys of the search map\<close>

text \<open>
  The map of searches starts empty, and no handler and no background task makes two
  entries with one key: the hypothesis under which clearing was described holds in
  every state the server reaches.
\<close>

lemma no_sessions_keys_distinct: "distinct (map fst (searchSessions no_sessions))"
  by (simp add: no_sessions_def)

lemma start_keeps_keys_distinct:
  "distinct (map fst (searchSessions srv)) \<Longrightarrow>
   distinct (map fst (searchSessions (snd (fc_start_search P fs now dir pat srv))))"
  by (simp add: fc_start_search_def generateSearchId_def Let_def distinct_keys_map_set
        compile_wildcard_terms)

lemma task_keeps_keys_distinct:
  "distinct (map fst (searchSessions srv)) \<Longrightarrow>
   distinct (map fst (searchSessions (run_pending_search P fs stops srv)))"
  by (cases "pending_searches srv")
     (auto simp add: run_pending_search_def distinct_keys_map_set split: option.splits)

lemma stop_keeps_keys_distinct:
  "distinct (map fst (searchSessions srv)) \<Longrightarrow>
   distinct (map fst (searchSessions (snd (fc_stop_search sid srv))))"
  by (cases "map_get (searchSessions srv) sid")
     (simp_all add: fc_stop_search_def distinct_keys_map_set)

lemma clear_keeps_keys_distinct:
  "distinct (map fst (searchSessions srv)) \<Longrightarrow>
   distinct (map fst (searchSessions (snd (fc_clear_search sid srv))))"
  by (cases "map_get (searchSessions srv) sid")
     (simp_all add: fc_clear_search_def clear_finished_filter distinct_map_filter
        distinct_keys_map_delete)

end
